theory Spec2Isabelle
  imports Main
begin

section \<open>Data model\<close>

text \<open>
  The playback engine of \<^verbatim>\<open>app/player.py\<close> keeps its whole state in module-level
  variables. The model gathers them in one record that every operation takes and returns.
  Rows of the database are immutable values: the player only reads the columns
  \<^verbatim>\<open>id\<close>, \<^verbatim>\<open>title\<close> and \<^verbatim>\<open>duration\<close> of a track, and the \<^verbatim>\<open>tracks\<close> relationship
  of a playlist or an album. Python integers are unbounded, hence \<^typ>\<open>int\<close>.
\<close>

record Track =
  id' :: int
  title :: string
  duration :: int
  file_path :: "string option"
  album_id' :: "int option"

record Playlist =
  pl_id :: int
  pl_name :: string
  pl_tracks :: "Track list"

record Album =
  al_id :: int
  al_title :: string
  al_tracks :: "Track list"

text \<open>
  Exceptions are values. A call yields \<open>Inl e\<close> when it raises \<open>e\<close> and \<open>Inr v\<close> when
  it returns \<open>v\<close>, together with the state the globals are left in at that moment.
\<close>

datatype error = IndexError | ValueError | OverflowError

text \<open>
  The database as the player sees it through \<^verbatim>\<open>SessionLocal()\<close>: three tables of rows.
  The engine of \<^verbatim>\<open>app/database.py\<close> is SQLite, whose integers are signed and 64 bits
  wide. An identifier reaches the lookup as it came in the message, a Python integer of any
  size, and binding one outside that range to the query raises \<^verbatim>\<open>OverflowError\<close> before
  any row is read. Inside the range, \<^verbatim>\<open>db.get(Model, key)\<close> is the row with that primary
  key or \<^verbatim>\<open>None\<close>. \<^verbatim>\<open>db.query(Playlist).filter_by(name=name).first()\<close> is the first
  row with that name or \<^verbatim>\<open>None\<close>.
\<close>

record database =
  tracks_table :: "Track list"
  playlists_table :: "Playlist list"
  albums_table :: "Album list"

definition sqlite_integer :: "int \<Rightarrow> bool" where
  "sqlite_integer i = (- (2 ^ 63) \<le> i \<and> i < 2 ^ 63)"

definition get_track :: "database \<Rightarrow> int \<Rightarrow> error + Track option" where
  "get_track db track_id =
     (if sqlite_integer track_id then Inr (find (\<lambda>t. id' t = track_id) (tracks_table db))
      else Inl OverflowError)"

definition get_playlist :: "database \<Rightarrow> int \<Rightarrow> error + Playlist option" where
  "get_playlist db playlist_id =
     (if sqlite_integer playlist_id
      then Inr (find (\<lambda>p. pl_id p = playlist_id) (playlists_table db))
      else Inl OverflowError)"

definition first_playlist_by_name :: "database \<Rightarrow> string \<Rightarrow> Playlist option" where
  "first_playlist_by_name db name = find (\<lambda>p. pl_name p = name) (playlists_table db)"

definition get_album :: "database \<Rightarrow> int \<Rightarrow> error + Album option" where
  "get_album db album_id =
     (if sqlite_integer album_id then Inr (find (\<lambda>a. al_id a = album_id) (albums_table db))
      else Inl OverflowError)"

text \<open>The module-level variables of \<^verbatim>\<open>player.py\<close>, with their names.\<close>

record player =
  queue :: "Track list"
  current :: "Track option"
  elapsed :: int
  is_paused :: bool
  loop_track :: bool
  loop_playlist :: bool
  playlist_mode :: bool
  playlist_tracks :: "Track list"
  playlist_index :: int

definition initial :: player where
  "initial = \<lparr> queue = [], current = None, elapsed = 0, is_paused = False,
     loop_track = False, loop_playlist = False, playlist_mode = False,
     playlist_tracks = [], playlist_index = 0 \<rparr>"

text \<open>Python list indexing \<^verbatim>\<open>xs[i]\<close>: a negative index counts from the end.\<close>

definition py_index :: "'a list \<Rightarrow> int \<Rightarrow> error + 'a" where
  "py_index xs i =
     (if 0 \<le> i \<and> i < int (length xs) then Inr (xs ! nat i)
      else if i < 0 \<and> - int (length xs) \<le> i then Inr (xs ! nat (int (length xs) + i))
      else Inl IndexError)"

text \<open>\<^verbatim>\<open>deque.remove(x)\<close>: removes the first occurrence, \<^verbatim>\<open>ValueError\<close> when absent.\<close>

definition deque_remove :: "'a \<Rightarrow> 'a list \<Rightarrow> error + 'a list" where
  "deque_remove x q = (if x \<in> set q then Inr (remove1 x q) else Inl ValueError)"

section \<open>Operations of the player\<close>

definition reset :: "player \<Rightarrow> player" where
  "reset s = s\<lparr> queue := [], current := None, elapsed := 0, loop_track := False,
     loop_playlist := False, playlist_mode := False, playlist_tracks := [],
     playlist_index := 0, is_paused := False \<rparr>"

definition is_stopped :: "player \<Rightarrow> bool" where
  "is_stopped s = (current s = None)"

definition reset_loops :: "player \<Rightarrow> player" where
  "reset_loops s = s\<lparr> loop_track := False, loop_playlist := False \<rparr>"

definition stop_all :: "player \<Rightarrow> player" where
  "stop_all s = reset_loops (s\<lparr> current := None, elapsed := 0, playlist_mode := False,
     is_paused := False \<rparr>)"

text \<open>
  The last two statements of the playlist branch of \<^verbatim>\<open>next_track\<close>:
  \<^verbatim>\<open>current = playlist_tracks[playlist_index]; return current\<close>.
\<close>

definition take_from_playlist :: "player \<Rightarrow> (error + Track option) \<times> player" where
  "take_from_playlist s =
     (case py_index (playlist_tracks s) (playlist_index s) of
        Inl e \<Rightarrow> (Inl e, s)
      | Inr t \<Rightarrow> (Inr (Some t), s\<lparr> current := Some t \<rparr>))"

definition next_track :: "player \<Rightarrow> (error + Track option) \<times> player" where
  "next_track s =
     (let s1 = s\<lparr> elapsed := 0, is_paused := False \<rparr> in
      if playlist_mode s1 then
        (let s2 = s1\<lparr> playlist_index := playlist_index s1 + 1 \<rparr> in
         if playlist_index s2 \<ge> int (length (playlist_tracks s2)) then
           (if loop_playlist s2 then take_from_playlist (s2\<lparr> playlist_index := 0 \<rparr>)
            else (Inr None, stop_all s2))
         else take_from_playlist s2)
      else
        (case queue s1 of
           t # rest \<Rightarrow> (Inr (Some t), s1\<lparr> queue := rest, current := Some t \<rparr>)
         | [] \<Rightarrow> (Inr None, stop_all s1)))"

definition play :: "player \<Rightarrow> (error + Track option) \<times> player" where
  "play s =
     (if current s = None then next_track s
      else (Inr (current s), s\<lparr> is_paused := False \<rparr>))"

text \<open>\<^verbatim>\<open>stop()\<close> is the pause of the protocol.\<close>

definition stop :: "player \<Rightarrow> player" where
  "stop s = (if current s \<noteq> None then s\<lparr> is_paused := True \<rparr> else s)"

definition skip :: "player \<Rightarrow> (error + Track option) \<times> player" where
  "skip s = next_track s"

definition tick :: "player \<Rightarrow> (error + Track option) \<times> player" where
  "tick s =
     (case current s of
        None \<Rightarrow> (Inr None, s)
      | Some c \<Rightarrow>
          if is_paused s then (Inr (Some c), s)
          else
            (let s1 = s\<lparr> elapsed := elapsed s + 1 \<rparr> in
             if elapsed s1 < duration c then (Inr (Some c), s1)
             else if loop_track s1 then (Inr (Some c), s1\<lparr> elapsed := 0 \<rparr>)
             else next_track s1))"

definition add_to_queue :: "database \<Rightarrow> int \<Rightarrow> player \<Rightarrow> (error + unit) \<times> player" where
  "add_to_queue db track_id s =
     (case get_track db track_id of
        Inl e \<Rightarrow> (Inl e, s)
      | Inr None \<Rightarrow> (Inr (), s)
      | Inr (Some track) \<Rightarrow>
          (let s1 = s\<lparr> queue := queue s @ [track] \<rparr> in
           if current s1 = None then
             (case play s1 of
                (Inl e, s2) \<Rightarrow> (Inl e, s2)
              | (Inr _, s2) \<Rightarrow> (Inr (), s2))
           else (Inr (), s1)))"

text \<open>
  The loop of \<^verbatim>\<open>remove_from_queue\<close> runs over a copy of the queue taken at entry and
  leaves at the first row whose id matches, after \<^verbatim>\<open>queue.remove(t)\<close>.
\<close>

fun remove_loop :: "int \<Rightarrow> Track list \<Rightarrow> player \<Rightarrow> (error + bool) \<times> player" where
  "remove_loop track_id [] s = (Inr False, s)"
| "remove_loop track_id (t # ts) s =
     (if id' t = track_id then
        (case deque_remove t (queue s) of
           Inl e \<Rightarrow> (Inl e, s)
         | Inr q \<Rightarrow> (Inr True, s\<lparr> queue := q \<rparr>))
      else remove_loop track_id ts s)"

definition remove_from_queue :: "int \<Rightarrow> player \<Rightarrow> (error + bool) \<times> player" where
  "remove_from_queue track_id s = remove_loop track_id (queue s) s"

definition get_queue :: "player \<Rightarrow> Track list" where
  "get_queue s = queue s"

definition select_track ::
  "database \<Rightarrow> int \<Rightarrow> player \<Rightarrow> (error + Track option) \<times> player" where
  "select_track db track_id s =
     (case get_track db track_id of
        Inl e \<Rightarrow> (Inl e, s)
      | Inr None \<Rightarrow> (Inr None, s)
      | Inr (Some track) \<Rightarrow>
          (Inr (Some track),
           (reset_loops (s\<lparr> playlist_mode := False \<rparr>))
             \<lparr> current := Some track, elapsed := 0, is_paused := False \<rparr>))"

text \<open>
  \<^verbatim>\<open>_select_playlist\<close> of the source, which both playlist selections call with the
  tracks of the playlist they found.
\<close>

definition select_playlist' :: "Track list \<Rightarrow> bool \<Rightarrow> player \<Rightarrow> (error + Track option) \<times> player" where
  "select_playlist' tracks loop s =
     (let s1 = s\<lparr> playlist_mode := True, playlist_tracks := tracks, playlist_index := 0,
                  loop_playlist := loop, queue := [] \<rparr> in
      case py_index tracks 0 of
        Inl e \<Rightarrow> (Inl e, s1)
      | Inr t \<Rightarrow> (Inr (Some t), s1\<lparr> current := Some t, elapsed := 0, is_paused := False \<rparr>))"

definition select_playlist_by_id ::
  "database \<Rightarrow> int \<Rightarrow> bool \<Rightarrow> player \<Rightarrow> (error + Track option) \<times> player" where
  "select_playlist_by_id db playlist_id loop s =
     (case get_playlist db playlist_id of
        Inl e \<Rightarrow> (Inl e, s)
      | Inr None \<Rightarrow> (Inr None, s)
      | Inr (Some playlist) \<Rightarrow>
          if pl_tracks playlist = [] then (Inr None, s)
          else select_playlist' (pl_tracks playlist) loop s)"

definition select_playlist_by_name ::
  "database \<Rightarrow> string \<Rightarrow> bool \<Rightarrow> player \<Rightarrow> (error + Track option) \<times> player" where
  "select_playlist_by_name db name loop s =
     (case first_playlist_by_name db name of
        None \<Rightarrow> (Inr None, s)
      | Some playlist \<Rightarrow>
          if pl_tracks playlist = [] then (Inr None, s)
          else select_playlist' (pl_tracks playlist) loop s)"

definition select_album_by_id ::
  "database \<Rightarrow> int \<Rightarrow> bool \<Rightarrow> player \<Rightarrow> (error + Track option) \<times> player" where
  "select_album_by_id db album_id loop s =
     (case get_album db album_id of
        Inl e \<Rightarrow> (Inl e, s)
      | Inr None \<Rightarrow> (Inr None, s)
      | Inr (Some album) \<Rightarrow>
          if al_tracks album = [] then (Inr None, s)
          else
            (let s1 = s\<lparr> playlist_mode := True, playlist_tracks := al_tracks album,
                         playlist_index := 0, loop_playlist := loop, loop_track := False,
                         queue := [] \<rparr> in
             case py_index (playlist_tracks s1) 0 of
               Inl e \<Rightarrow> (Inl e, s1)
             | Inr t \<Rightarrow> (Inr (Some t), s1\<lparr> current := Some t, elapsed := 0 \<rparr>)))"

definition set_loop_track :: "bool \<Rightarrow> player \<Rightarrow> player" where
  "set_loop_track enabled s =
     (if current s = None then s
      else
        (let s1 = s\<lparr> loop_track := enabled \<rparr> in
         if enabled then s1\<lparr> loop_playlist := False \<rparr> else s1))"

definition set_loop_playlist :: "bool \<Rightarrow> player \<Rightarrow> player" where
  "set_loop_playlist enabled s =
     (if \<not> playlist_mode s then s else s\<lparr> loop_playlist := enabled \<rparr>)"

section \<open>Snapshot sent to a listener\<close>

text \<open>
  \<^verbatim>\<open>send_status\<close> of \<^verbatim>\<open>app/websocket.py\<close>, without the time stamp. A track object
  is always true in a Python condition, so \<^verbatim>\<open>player.current and player.is_paused\<close>
  is the pause flag when a track is set.
\<close>

datatype status = PLAYING | PAUSED | STOPPED

record snapshot =
  snap_status :: status
  snap_track :: "string option"
  snap_elapsed :: int
  snap_duration :: "int option"
  snap_queue :: "string list"
  snap_loop_track :: bool
  snap_loop_playlist :: bool

definition send_status :: "player \<Rightarrow> snapshot" where
  "send_status s =
     \<lparr> snap_status =
         (if current s \<noteq> None \<and> is_paused s then PAUSED
          else if current s \<noteq> None then PLAYING
          else STOPPED),
       snap_track = (case current s of Some c \<Rightarrow> Some (title c) | None \<Rightarrow> None),
       snap_elapsed = elapsed s,
       snap_duration = (case current s of Some c \<Rightarrow> Some (duration c) | None \<Rightarrow> None),
       snap_queue = map title (get_queue s),
       snap_loop_track = loop_track s,
       snap_loop_playlist = loop_playlist s \<rparr>"

section \<open>Sequences of operations\<close>

text \<open>
  One constructor for each operation of the engine. \<open>perform\<close> makes the call and
  forgets the returned value, keeping whether the call raised and the state it left.
  The database is an argument of every call, since rows may be added or deleted between
  two calls.
\<close>

datatype command =
    Reset
  | AddToQueue int
  | RemoveFromQueue int
  | Play
  | Pause
  | StopAll
  | Skip
  | Tick
  | SelectTrack int
  | SelectPlaylistById int bool
  | SelectPlaylistByName string bool
  | SelectAlbumById int bool
  | SetLoopTrack bool
  | SetLoopPlaylist bool

definition forget :: "(error + 'a) \<times> player \<Rightarrow> (error + unit) \<times> player" where
  "forget r = (case r of (Inl e, s) \<Rightarrow> (Inl e, s) | (Inr _, s) \<Rightarrow> (Inr (), s))"

fun perform :: "database \<Rightarrow> command \<Rightarrow> player \<Rightarrow> (error + unit) \<times> player" where
  "perform db Reset s = (Inr (), reset s)"
| "perform db (AddToQueue i) s = add_to_queue db i s"
| "perform db (RemoveFromQueue i) s = forget (remove_from_queue i s)"
| "perform db Play s = forget (play s)"
| "perform db Pause s = (Inr (), stop s)"
| "perform db StopAll s = (Inr (), stop_all s)"
| "perform db Skip s = forget (skip s)"
| "perform db Tick s = forget (tick s)"
| "perform db (SelectTrack i) s = forget (select_track db i s)"
| "perform db (SelectPlaylistById i loop) s = forget (select_playlist_by_id db i loop s)"
| "perform db (SelectPlaylistByName n loop) s = forget (select_playlist_by_name db n loop s)"
| "perform db (SelectAlbumById i loop) s = forget (select_album_by_id db i loop s)"
| "perform db (SetLoopTrack b) s = (Inr (), set_loop_track b s)"
| "perform db (SetLoopPlaylist b) s = (Inr (), set_loop_playlist b s)"

text \<open>
  The globals survive an exception, so a sequence of calls goes on from the state the
  raising call left.
\<close>

fun run :: "(database \<times> command) list \<Rightarrow> player \<Rightarrow> player" where
  "run [] s = s"
| "run ((db, c) # rest) s = run rest (snd (perform db c s))"

text \<open>The check constraint \<^verbatim>\<open>duration > 0\<close> of the tracks table, on every row in reach.\<close>

definition valid_db :: "database \<Rightarrow> bool" where
  "valid_db db =
     ((\<forall>t \<in> set (tracks_table db). 0 < duration t) \<and>
      (\<forall>p \<in> set (playlists_table db). \<forall>t \<in> set (pl_tracks p). 0 < duration t) \<and>
      (\<forall>a \<in> set (albums_table db). \<forall>t \<in> set (al_tracks a). 0 < duration t))"

section \<open>Invariants\<close>

definition elapsed_ok :: "player \<Rightarrow> bool" where
  "elapsed_ok s = (case current s of None \<Rightarrow> True | Some c \<Rightarrow> 0 \<le> elapsed s \<and> elapsed s < duration c)"

definition tracks_ok :: "player \<Rightarrow> bool" where
  "tracks_ok s = ((\<forall>t \<in> set (queue s). 0 < duration t) \<and> (\<forall>t \<in> set (playlist_tracks s). 0 < duration t))"

definition stopped_ok :: "player \<Rightarrow> bool" where
  "stopped_ok s =
     (current s = None \<longrightarrow>
        elapsed s = 0 \<and> \<not> is_paused s \<and> \<not> playlist_mode s \<and> \<not> loop_track s \<and> \<not> loop_playlist s)"

definition selection_ok :: "player \<Rightarrow> bool" where
  "selection_ok s =
     (playlist_mode s \<longrightarrow>
        playlist_tracks s \<noteq> [] \<and> 0 \<le> playlist_index s \<and>
        playlist_index s < int (length (playlist_tracks s)))"

text \<open>
  The part of the range invariant that survives the increment of a tick: the current track,
  when there is one, has a positive duration.
\<close>

definition positive_current :: "player \<Rightarrow> bool" where
  "positive_current s = (case current s of None \<Rightarrow> True | Some c \<Rightarrow> 0 < duration c)"

definition playable :: "player \<Rightarrow> bool" where
  "playable s = (elapsed_ok s \<and> tracks_ok s)"

section \<open>A small catalogue for concrete runs\<close>

definition track_a :: Track where
  "track_a = \<lparr> id' = 1, title = ''A'', duration = 2, file_path = None, album_id' = Some 1 \<rparr>"

definition track_b :: Track where
  "track_b = \<lparr> id' = 2, title = ''B'', duration = 3, file_path = None, album_id' = Some 1 \<rparr>"

definition demo_db :: database where
  "demo_db =
     \<lparr> tracks_table = [track_a, track_b],
       playlists_table = [\<lparr> pl_id = 1, pl_name = ''mix'', pl_tracks = [track_a, track_b] \<rparr>,
                          \<lparr> pl_id = 2, pl_name = ''void'', pl_tracks = [] \<rparr>],
       albums_table = [\<lparr> al_id = 1, al_title = ''LP'', al_tracks = [track_a, track_b] \<rparr>] \<rparr>"

section \<open>Basic facts\<close>

lemmas demo_defs = demo_db_def track_a_def track_b_def

lemmas lookup_defs = sqlite_integer_def get_track_def get_playlist_def
  first_playlist_by_name_def get_album_def

lemmas op_defs = reset_def reset_loops_def stop_all_def take_from_playlist_def next_track_def
  play_def stop_def skip_def tick_def add_to_queue_def remove_from_queue_def select_track_def
  select_playlist'_def select_playlist_by_id_def select_playlist_by_name_def
  select_album_by_id_def set_loop_track_def set_loop_playlist_def py_index_def deque_remove_def
  forget_def

lemma find_Some_set: "find P xs = Some x \<Longrightarrow> x \<in> set xs"
  by (auto simp: find_Some_iff)

lemma get_track_Some: "get_track db i = Inr (Some t) \<Longrightarrow> t \<in> set (tracks_table db)"
  by (auto simp: get_track_def dest: find_Some_set split: if_splits)

lemma get_playlist_Some: "get_playlist db i = Inr (Some p) \<Longrightarrow> p \<in> set (playlists_table db)"
  by (auto simp: get_playlist_def dest: find_Some_set split: if_splits)

lemma first_playlist_by_name_Some:
  "first_playlist_by_name db n = Some p \<Longrightarrow> p \<in> set (playlists_table db)"
  by (auto simp: first_playlist_by_name_def dest: find_Some_set)

lemma get_album_Some: "get_album db i = Inr (Some a) \<Longrightarrow> a \<in> set (albums_table db)"
  by (auto simp: get_album_def dest: find_Some_set split: if_splits)

lemma get_track_raises: "get_track db i = Inl e \<Longrightarrow> e = OverflowError"
  by (auto simp: get_track_def split: if_splits)

lemma get_playlist_raises: "get_playlist db i = Inl e \<Longrightarrow> e = OverflowError"
  by (auto simp: get_playlist_def split: if_splits)

lemma get_album_raises: "get_album db i = Inl e \<Longrightarrow> e = OverflowError"
  by (auto simp: get_album_def split: if_splits)

lemma py_index_0: "ts \<noteq> [] \<Longrightarrow> py_index ts 0 = Inr (ts ! 0)"
  by (simp add: py_index_def)

lemma py_index_in_range: "0 \<le> i \<Longrightarrow> i < int (length ts) \<Longrightarrow> py_index ts i = Inr (ts ! nat i)"
  by (simp add: py_index_def)

lemma snd_forget [simp]: "snd (forget r) = snd r"
  by (auto simp: forget_def split: prod.splits sum.splits)

lemma fst_forget: "fst (forget r) = (case fst r of Inl e \<Rightarrow> Inl e | Inr _ \<Rightarrow> Inr ())"
  by (auto simp: forget_def split: prod.splits sum.splits)

lemma snd_add_to_queue:
  "snd (add_to_queue db i s) =
     (case get_track db i of
        Inl e \<Rightarrow> s
      | Inr None \<Rightarrow> s
      | Inr (Some t) \<Rightarrow>
          if current s = None then snd (play (s\<lparr> queue := queue s @ [t] \<rparr>))
          else s\<lparr> queue := queue s @ [t] \<rparr>)"
  by (simp add: add_to_queue_def Let_def split: option.splits prod.splits sum.splits)

lemma fst_add_to_queue:
  "fst (add_to_queue db i s) =
     (case get_track db i of
        Inl e \<Rightarrow> Inl e
      | Inr None \<Rightarrow> Inr ()
      | Inr (Some t) \<Rightarrow>
          if current s = None then fst (forget (play (s\<lparr> queue := queue s @ [t] \<rparr>)))
          else Inr ())"
proof (cases "get_track db i")
  case (Inl e)
  then show ?thesis by (simp add: add_to_queue_def)
next
  case (Inr r)
  then show ?thesis
    by (cases r) (auto simp: add_to_queue_def Let_def forget_def split: prod.splits sum.splits)
qed

lemma remove_loop_frame: "snd (remove_loop i ts s) = s\<lparr> queue := queue (snd (remove_loop i ts s)) \<rparr>"
  by (induction ts) (simp_all add: deque_remove_def)

lemma remove_from_queue_frame:
  "snd (remove_from_queue i s) = s\<lparr> queue := queue (snd (remove_from_queue i s)) \<rparr>"
  unfolding remove_from_queue_def by (rule remove_loop_frame)

lemma remove_loop_returns: "set ts \<subseteq> set (queue s) \<Longrightarrow> \<exists>b. fst (remove_loop i ts s) = Inr b"
  by (induction ts) (auto simp: deque_remove_def)

lemma remove_from_queue_returns: "\<exists>b. fst (remove_from_queue i s) = Inr b"
  by (simp add: remove_from_queue_def remove_loop_returns)

lemma remove_loop_subset: "set (queue (snd (remove_loop i ts s))) \<subseteq> set (queue s)"
  by (induction ts) (auto simp: deque_remove_def dest: set_mp [OF set_remove1_subset])

lemma py_index_in_set: "py_index xs i = Inr t \<Longrightarrow> t \<in> set xs"
  by (auto simp: py_index_def split: if_splits)

section \<open>The stopped state\<close>

lemma stopped_ok_next_track: "stopped_ok s \<Longrightarrow> stopped_ok (snd (next_track s))"
  by (auto simp: stopped_ok_def next_track_def take_from_playlist_def stop_all_def reset_loops_def
       Let_def split: sum.splits list.splits)

lemma stopped_ok_tick: "stopped_ok s \<Longrightarrow> stopped_ok (snd (tick s))"
  using stopped_ok_next_track [of "s\<lparr> elapsed := elapsed s + 1 \<rparr>"]
  by (auto simp: tick_def Let_def stopped_ok_def split: option.splits)

lemma stopped_ok_play: "stopped_ok s \<Longrightarrow> stopped_ok (snd (play s))"
  by (auto simp: play_def stopped_ok_next_track) (simp add: stopped_ok_def)

lemma stopped_ok_queue: "stopped_ok (s\<lparr> queue := q \<rparr>) = stopped_ok s"
  by (simp add: stopped_ok_def)

lemma stopped_ok_add: "stopped_ok s \<Longrightarrow> stopped_ok (snd (add_to_queue db i s))"
  by (simp add: snd_add_to_queue stopped_ok_play stopped_ok_queue split: option.splits sum.splits)

lemma stopped_ok_remove: "stopped_ok s \<Longrightarrow> stopped_ok (snd (remove_from_queue i s))"
  by (subst remove_from_queue_frame) (simp only: stopped_ok_queue)

lemma stopped_ok_select_playlist':
  "ts \<noteq> [] \<Longrightarrow> stopped_ok (snd (select_playlist' ts loop s))"
  by (simp add: select_playlist'_def stopped_ok_def Let_def py_index_0)

lemma stopped_ok_select_playlist_by_id:
  "stopped_ok s \<Longrightarrow> stopped_ok (snd (select_playlist_by_id db i loop s))"
  by (simp add: select_playlist_by_id_def stopped_ok_select_playlist'
        split: option.splits sum.splits)

lemma stopped_ok_select_playlist_by_name:
  "stopped_ok s \<Longrightarrow> stopped_ok (snd (select_playlist_by_name db n loop s))"
  by (simp add: select_playlist_by_name_def stopped_ok_select_playlist' split: option.splits)

lemma stopped_ok_select_album:
  "stopped_ok s \<Longrightarrow> stopped_ok (snd (select_album_by_id db i loop s))"
  by (simp add: select_album_by_id_def stopped_ok_def Let_def py_index_0
        split: option.splits sum.splits)

lemma stopped_ok_select_track:
  "stopped_ok s \<Longrightarrow> stopped_ok (snd (select_track db i s))"
  by (auto simp: select_track_def stopped_ok_def split: option.splits sum.splits)

lemma stopped_ok_simple:
  "stopped_ok (reset s)" "stopped_ok (stop_all s)"
  "stopped_ok s \<Longrightarrow> stopped_ok (stop s)"
  "stopped_ok s \<Longrightarrow> stopped_ok (set_loop_track b s)"
  "stopped_ok s \<Longrightarrow> stopped_ok (set_loop_playlist b s)"
  by (auto simp: stopped_ok_def reset_def stop_all_def reset_loops_def stop_def
        set_loop_track_def set_loop_playlist_def Let_def)

lemma stopped_ok_perform: "stopped_ok s \<Longrightarrow> stopped_ok (snd (perform db c s))"
  by (cases c)
     (simp_all add: stopped_ok_simple stopped_ok_select_track stopped_ok_select_album
        stopped_ok_select_playlist_by_name stopped_ok_select_playlist_by_id stopped_ok_remove
        stopped_ok_add stopped_ok_play stopped_ok_tick stopped_ok_next_track skip_def)

lemma stopped_ok_run: "stopped_ok s \<Longrightarrow> stopped_ok (run tr s)"
  by (induction tr arbitrary: s) (auto simp: stopped_ok_perform)

section \<open>The selection stays in bounds\<close>

lemma selection_ok_queue: "selection_ok (s\<lparr> queue := q \<rparr>) = selection_ok s"
  by (simp add: selection_ok_def)

lemma selection_ok_next_track: "selection_ok s \<Longrightarrow> selection_ok (snd (next_track s))"
  by (auto simp: selection_ok_def next_track_def take_from_playlist_def stop_all_def reset_loops_def
       Let_def py_index_0 py_index_in_range split: list.splits)

lemma next_track_returns: "selection_ok s \<Longrightarrow> \<exists>r. fst (next_track s) = Inr r"
  by (auto simp: selection_ok_def next_track_def take_from_playlist_def stop_all_def reset_loops_def
       Let_def py_index_0 py_index_in_range split: list.splits)

lemma selection_ok_tick: "selection_ok s \<Longrightarrow> selection_ok (snd (tick s))"
  using selection_ok_next_track [of "s\<lparr> elapsed := elapsed s + 1 \<rparr>"]
  by (auto simp: tick_def Let_def selection_ok_def split: option.splits)

lemma tick_returns: "selection_ok s \<Longrightarrow> \<exists>r. fst (tick s) = Inr r"
  using next_track_returns [of "s\<lparr> elapsed := elapsed s + 1 \<rparr>"]
  by (auto simp: tick_def Let_def selection_ok_def split: option.splits)

lemma selection_ok_play: "selection_ok s \<Longrightarrow> selection_ok (snd (play s))"
  by (auto simp: play_def selection_ok_next_track) (simp add: selection_ok_def)

lemma play_returns: "selection_ok s \<Longrightarrow> \<exists>r. fst (play s) = Inr r"
  by (simp add: play_def next_track_returns)

lemma selection_ok_add: "selection_ok s \<Longrightarrow> selection_ok (snd (add_to_queue db i s))"
  by (simp add: snd_add_to_queue selection_ok_play selection_ok_queue
        split: option.splits sum.splits)

lemma add_returns:
  "selection_ok s \<Longrightarrow>
   fst (add_to_queue db i s) = Inr () \<or> add_to_queue db i s = (Inl OverflowError, s)"
proof (cases "get_track db i")
  case (Inl e)
  then show ?thesis
    using get_track_raises [OF Inl] by (simp add: add_to_queue_def)
next
  case (Inr r)
  assume ok: "selection_ok s"
  show ?thesis
  proof (cases r)
    case None
    with Inr show ?thesis by (simp add: fst_add_to_queue)
  next
    case (Some t)
    from ok have "selection_ok (s\<lparr> queue := queue s @ [t] \<rparr>)"
      by (simp only: selection_ok_queue)
    then obtain v where "fst (play (s\<lparr> queue := queue s @ [t] \<rparr>)) = Inr v"
      using play_returns by blast
    with Inr Some show ?thesis by (simp add: fst_add_to_queue fst_forget)
  qed
qed

lemma selection_ok_remove: "selection_ok s \<Longrightarrow> selection_ok (snd (remove_from_queue i s))"
  by (subst remove_from_queue_frame) (simp only: selection_ok_queue)

lemma selection_ok_select_playlist':
  "ts \<noteq> [] \<Longrightarrow> selection_ok (snd (select_playlist' ts loop s))"
  by (simp add: select_playlist'_def selection_ok_def Let_def py_index_0)

lemma select_playlist'_returns:
  "ts \<noteq> [] \<Longrightarrow> \<exists>r. fst (select_playlist' ts loop s) = Inr r"
  by (simp add: select_playlist'_def Let_def py_index_0)

lemma selection_ok_select_playlist_by_id:
  "selection_ok s \<Longrightarrow> selection_ok (snd (select_playlist_by_id db i loop s))"
  by (simp add: select_playlist_by_id_def selection_ok_select_playlist'
        split: option.splits sum.splits)

lemma select_playlist_by_id_returns:
  "(\<exists>r. fst (select_playlist_by_id db i loop s) = Inr r)
   \<or> select_playlist_by_id db i loop s = (Inl OverflowError, s)"
proof (cases "get_playlist db i")
  case (Inl e)
  then show ?thesis
    using get_playlist_raises [OF Inl] by (simp add: select_playlist_by_id_def)
next
  case (Inr r)
  then show ?thesis
    by (simp add: select_playlist_by_id_def select_playlist'_returns split: option.splits)
qed

lemma selection_ok_select_playlist_by_name:
  "selection_ok s \<Longrightarrow> selection_ok (snd (select_playlist_by_name db n loop s))"
  by (simp add: select_playlist_by_name_def selection_ok_select_playlist' split: option.splits)

lemma select_playlist_by_name_returns: "\<exists>r. fst (select_playlist_by_name db n loop s) = Inr r"
  by (simp add: select_playlist_by_name_def select_playlist'_returns split: option.splits)

lemma selection_ok_select_album:
  "selection_ok s \<Longrightarrow> selection_ok (snd (select_album_by_id db i loop s))"
  by (simp add: select_album_by_id_def selection_ok_def Let_def py_index_0
        split: option.splits sum.splits)

lemma select_album_returns:
  "(\<exists>r. fst (select_album_by_id db i loop s) = Inr r)
   \<or> select_album_by_id db i loop s = (Inl OverflowError, s)"
proof (cases "get_album db i")
  case (Inl e)
  then show ?thesis
    using get_album_raises [OF Inl] by (simp add: select_album_by_id_def)
next
  case (Inr r)
  then show ?thesis
    by (simp add: select_album_by_id_def Let_def py_index_0 split: option.splits)
qed

lemma select_track_returns:
  "(\<exists>r. fst (select_track db i s) = Inr r) \<or> select_track db i s = (Inl OverflowError, s)"
proof (cases "get_track db i")
  case (Inl e)
  then show ?thesis
    using get_track_raises [OF Inl] by (simp add: select_track_def)
next
  case (Inr r)
  then show ?thesis
    by (simp add: select_track_def split: option.splits)
qed

lemma selection_ok_select_track:
  "selection_ok s \<Longrightarrow> selection_ok (snd (select_track db i s))"
  by (auto simp: select_track_def selection_ok_def reset_loops_def
        split: option.splits sum.splits)

lemma selection_ok_simple:
  "selection_ok (reset s)" "selection_ok (stop_all s)"
  "selection_ok s \<Longrightarrow> selection_ok (stop s)"
  "selection_ok s \<Longrightarrow> selection_ok (set_loop_track b s)"
  "selection_ok s \<Longrightarrow> selection_ok (set_loop_playlist b s)"
  by (auto simp: selection_ok_def reset_def stop_all_def reset_loops_def stop_def
        set_loop_track_def set_loop_playlist_def Let_def)

lemma selection_ok_perform: "selection_ok s \<Longrightarrow> selection_ok (snd (perform db c s))"
  by (cases c)
     (simp_all add: selection_ok_simple selection_ok_select_track selection_ok_select_album
        selection_ok_select_playlist_by_name selection_ok_select_playlist_by_id selection_ok_remove
        selection_ok_add selection_ok_play selection_ok_tick selection_ok_next_track skip_def)

lemma forget_returns: "\<exists>r. fst x = Inr r \<Longrightarrow> fst (forget x) = Inr ()"
  by (auto simp: fst_forget)

lemma forget_cases:
  "(\<exists>r. fst x = Inr r) \<or> x = (Inl OverflowError, s) \<Longrightarrow>
   fst (forget x) = Inr () \<or> forget x = (Inl OverflowError, s)"
  by (auto simp: forget_def split: prod.splits sum.splits)

lemma perform_returns:
  "selection_ok s \<Longrightarrow>
   fst (perform db c s) = Inr () \<or> perform db c s = (Inl OverflowError, s)"
proof (cases c)
  case (AddToQueue i)
  assume "selection_ok s"
  then show ?thesis using AddToQueue add_returns by simp
next
  case (SelectTrack i)
  then show ?thesis using forget_cases [OF select_track_returns] by simp
next
  case (SelectPlaylistById i loop)
  then show ?thesis using forget_cases [OF select_playlist_by_id_returns] by simp
next
  case (SelectAlbumById i loop)
  then show ?thesis using forget_cases [OF select_album_returns] by simp
qed (simp_all add: forget_returns remove_from_queue_returns play_returns
       tick_returns next_track_returns skip_def select_playlist_by_name_returns)

lemma selection_ok_run: "selection_ok s \<Longrightarrow> selection_ok (run tr s)"
  by (induction tr arbitrary: s) (auto simp: selection_ok_perform)

section \<open>Elapsed time stays in range\<close>

lemma elapsed_ok_iff:
  "elapsed_ok s = (\<forall>c. current s = Some c \<longrightarrow> 0 \<le> elapsed s \<and> elapsed s < duration c)"
  by (simp add: elapsed_ok_def split: option.splits)

lemma positive_current_iff:
  "positive_current s = (\<forall>c. current s = Some c \<longrightarrow> 0 < duration c)"
  by (simp add: positive_current_def split: option.splits)

lemma playable_next_track:
  "tracks_ok s \<Longrightarrow> positive_current s \<Longrightarrow> playable (snd (next_track s))"
  by (auto simp: playable_def elapsed_ok_iff tracks_ok_def positive_current_iff next_track_def
        take_from_playlist_def stop_all_def reset_loops_def Let_def
      dest: py_index_in_set split: list.splits sum.splits option.splits)

lemma playable_tracks_ok: "playable s \<Longrightarrow> tracks_ok s"
  by (simp add: playable_def)

lemma playable_positive: "playable s \<Longrightarrow> positive_current s"
  by (auto simp: playable_def elapsed_ok_iff positive_current_iff split: option.splits)

lemma playable_tick: "playable s \<Longrightarrow> playable (snd (tick s))"
proof (cases "current s")
  case None
  assume "playable s"
  with None show ?thesis by (simp add: tick_def)
next
  case (Some c)
  assume p: "playable s"
  let ?s1 = "s\<lparr> elapsed := elapsed s + 1 \<rparr>"
  have "tracks_ok ?s1" "positive_current ?s1"
    using p playable_positive [OF p] by (simp_all add: playable_def tracks_ok_def positive_current_iff)
  then have "playable (snd (next_track ?s1))"
    by (rule playable_next_track)
  moreover have "playable ?s1" if "elapsed s + 1 < duration c"
    using p Some that by (simp add: playable_def elapsed_ok_iff tracks_ok_def)
  moreover have "playable (?s1\<lparr> elapsed := 0 \<rparr>)"
    using p Some by (simp add: playable_def elapsed_ok_iff tracks_ok_def)
  ultimately show ?thesis
    using p Some by (simp add: tick_def Let_def)
qed

lemma playable_play: "playable s \<Longrightarrow> playable (snd (play s))"
proof (cases "current s")
  case None
  assume "playable s"
  then have "playable (snd (next_track s))"
    by (intro playable_next_track playable_tracks_ok playable_positive)
  then show ?thesis
    using None by (simp add: play_def)
next
  case (Some c)
  assume "playable s"
  then show ?thesis
    using Some by (simp add: play_def playable_def elapsed_ok_iff tracks_ok_def)
qed

lemma playable_skip: "playable s \<Longrightarrow> playable (snd (skip s))"
  unfolding skip_def by (intro playable_next_track playable_tracks_ok playable_positive)

lemma playable_add:
  assumes "valid_db db" "playable s"
  shows "playable (snd (add_to_queue db i s))"
proof (cases "get_track db i")
  case (Inl e)
  with assms show ?thesis by (simp add: snd_add_to_queue)
next
  case (Inr r)
  show ?thesis
  proof (cases r)
    case None
    with Inr assms show ?thesis by (simp add: snd_add_to_queue)
  next
    case (Some t)
    with Inr have "t \<in> set (tracks_table db)"
      by (simp add: get_track_Some)
    then have "0 < duration t"
      using assms(1) by (simp add: valid_db_def)
    then have "playable (s\<lparr> queue := queue s @ [t] \<rparr>)"
      using assms(2) by (simp add: playable_def elapsed_ok_iff tracks_ok_def)
    then show ?thesis
      using Inr Some by (simp add: snd_add_to_queue playable_play)
  qed
qed

lemma playable_remove: "playable s \<Longrightarrow> playable (snd (remove_from_queue i s))"
proof -
  assume p: "playable s"
  let ?q = "queue (snd (remove_from_queue i s))"
  have "set ?q \<subseteq> set (queue s)"
    unfolding remove_from_queue_def by (rule remove_loop_subset)
  then have "playable (s\<lparr> queue := ?q \<rparr>)"
    using p by (auto simp: playable_def elapsed_ok_iff tracks_ok_def)
  then show ?thesis
    using remove_from_queue_frame [of i s] by simp
qed

lemma playable_select_track:
  "valid_db db \<Longrightarrow> playable s \<Longrightarrow> playable (snd (select_track db i s))"
  by (auto simp: select_track_def playable_def elapsed_ok_iff tracks_ok_def reset_loops_def
        valid_db_def dest: get_track_Some split: option.splits sum.splits)

lemma playable_select_playlist':
  "ts \<noteq> [] \<Longrightarrow> \<forall>t \<in> set ts. 0 < duration t \<Longrightarrow> playable (snd (select_playlist' ts loop s))"
  by (simp add: select_playlist'_def playable_def elapsed_ok_iff tracks_ok_def Let_def py_index_0)

lemma playable_select_playlist_by_id:
  "valid_db db \<Longrightarrow> playable s \<Longrightarrow> playable (snd (select_playlist_by_id db i loop s))"
  by (auto simp: select_playlist_by_id_def valid_db_def
        intro!: playable_select_playlist' dest: get_playlist_Some split: option.splits sum.splits)

lemma playable_select_playlist_by_name:
  "valid_db db \<Longrightarrow> playable s \<Longrightarrow> playable (snd (select_playlist_by_name db n loop s))"
  by (auto simp: select_playlist_by_name_def first_playlist_by_name_def valid_db_def
        intro!: playable_select_playlist' dest: find_Some_set split: option.splits)

lemma playable_select_album:
  "valid_db db \<Longrightarrow> playable s \<Longrightarrow> playable (snd (select_album_by_id db i loop s))"
  by (auto simp: select_album_by_id_def valid_db_def playable_def elapsed_ok_iff
        tracks_ok_def Let_def py_index_0 dest: get_album_Some split: option.splits sum.splits)

lemma playable_simple:
  "playable (reset s)"
  "playable s \<Longrightarrow> playable (stop_all s)"
  "playable s \<Longrightarrow> playable (stop s)"
  "playable s \<Longrightarrow> playable (set_loop_track b s)"
  "playable s \<Longrightarrow> playable (set_loop_playlist b s)"
  by (auto simp: playable_def elapsed_ok_iff tracks_ok_def reset_def stop_all_def reset_loops_def
        stop_def set_loop_track_def set_loop_playlist_def Let_def)

lemma playable_perform: "valid_db db \<Longrightarrow> playable s \<Longrightarrow> playable (snd (perform db c s))"
  by (cases c)
     (simp_all add: playable_simple playable_select_track playable_select_album
        playable_select_playlist_by_name playable_select_playlist_by_id playable_remove
        playable_add playable_play playable_tick playable_skip)

lemma playable_run: "\<forall>(db, c) \<in> set tr. valid_db db \<Longrightarrow> playable s \<Longrightarrow> playable (run tr s)"
  by (induction tr arbitrary: s) (auto simp: playable_perform)

lemma playable_initial: "playable initial"
  by (simp add: playable_def elapsed_ok_iff tracks_ok_def initial_def)

section \<open>Selecting a playlist or an album\<close>

text \<open>
  Claim C1: for a playlist or album with a non-empty track list, \<open>selectPlaylist\<close> and
  \<open>selectAlbum\<close> leave \<open>mode = LIST\<close>, index 0, \<open>loopPlaylist = loop\<close>,
  \<open>loopTrack = false\<close>, an empty queue, the first track as current, \<open>elapsed = 0\<close> and
  \<open>paused = false\<close>.

  The two functions differ from each other and from the claim in one field each.
  \<^verbatim>\<open>_select_playlist\<close> never assigns \<^verbatim>\<open>loop_track\<close>, which \<^verbatim>\<open>select_album_by_id\<close>
  clears; \<^verbatim>\<open>select_album_by_id\<close> never assigns \<^verbatim>\<open>is_paused\<close>, which
  \<^verbatim>\<open>_select_playlist\<close> clears. The runs below start from the initial state: a track is
  selected and looped, then a playlist is selected, and the loop flag is still set; a track
  is selected and paused, then an album is selected, and the player is still paused.
\<close>

theorem select_playlist_keeps_loop_track_album_keeps_pause:
  "snd (select_playlist_by_id demo_db 1 False
          (run [(demo_db, SelectTrack 2), (demo_db, SetLoopTrack True)] initial))
     = \<lparr> queue = [], current = Some track_a, elapsed = 0, is_paused = False,
         loop_track = True, loop_playlist = False, playlist_mode = True,
         playlist_tracks = [track_a, track_b], playlist_index = 0 \<rparr>
   \<and> snd (select_album_by_id demo_db 1 False
          (run [(demo_db, SelectTrack 2), (demo_db, Pause)] initial))
     = \<lparr> queue = [], current = Some track_a, elapsed = 0, is_paused = True,
         loop_track = False, loop_playlist = False, playlist_mode = True,
         playlist_tracks = [track_a, track_b], playlist_index = 0 \<rparr>"
  by (simp add: op_defs lookup_defs demo_defs initial_def)

section \<open>The loop flags\<close>

text \<open>
  Claim C2 as the specification words it: with a current track, \<open>setLoopTrack(true)\<close>
  followed by \<open>setLoopPlaylist(true)\<close> leaves \<open>loopTrack = false\<close>. It fails:
  \<^verbatim>\<open>set_loop_playlist\<close> assigns \<^verbatim>\<open>loop_playlist\<close> only, so the track loop enabled
  just before is still enabled.
\<close>

theorem loop_track_survives_set_loop_playlist:
  "current (snd (select_track demo_db 1 initial)) \<noteq> None \<and>
   loop_track (set_loop_playlist True (set_loop_track True (snd (select_track demo_db 1 initial))))
     \<noteq> False"
  by (simp add: op_defs lookup_defs demo_defs initial_def)

text \<open>
  Claim C2, amended: with a current track, \<open>setLoopTrack(true)\<close> followed by
  \<open>setLoopPlaylist(true)\<close> leaves \<open>loopTrack = true\<close>, since \<open>setLoopPlaylist\<close> never
  changes \<open>loopTrack\<close>. The rest stands: \<open>setLoopTrack\<close> does nothing when there is no
  current track; with a current track it stores the flag and, when enabling, clears
  \<open>loopPlaylist\<close>; after \<open>setLoopTrack(true)\<close> the playlist loop is off in every state
  that has a current track or had the playlist loop off already, hence after every sequence
  of operations from the initial state; \<open>setLoopPlaylist\<close> does nothing unless the mode is
  LIST, where it stores the flag.
\<close>

theorem set_loop_rules:
  "(current s \<noteq> None \<longrightarrow> loop_track (set_loop_playlist True (set_loop_track True s)))
   \<and> loop_track (set_loop_playlist enabled s) = loop_track s
   \<and> (current s = None \<longrightarrow> set_loop_track enabled s = s)
   \<and> (current s \<noteq> None \<longrightarrow>
        set_loop_track True s = s\<lparr> loop_track := True, loop_playlist := False \<rparr>
        \<and> set_loop_track False s = s\<lparr> loop_track := False \<rparr>)
   \<and> ((current s = None \<longrightarrow> \<not> loop_playlist s) \<longrightarrow> \<not> loop_playlist (set_loop_track True s))
   \<and> \<not> loop_playlist (set_loop_track True (run tr initial))
   \<and> (\<not> playlist_mode s \<longrightarrow> set_loop_playlist enabled s = s)
   \<and> (playlist_mode s \<longrightarrow> set_loop_playlist enabled s = s\<lparr> loop_playlist := enabled \<rparr>)"
proof -
  have "stopped_ok initial"
    by (simp add: stopped_ok_def initial_def)
  then have "stopped_ok (run tr initial)"
    by (rule stopped_ok_run)
  then have "\<not> loop_playlist (set_loop_track True (run tr initial))"
    by (simp add: stopped_ok_def set_loop_track_def Let_def)
  then show ?thesis
    by (simp add: set_loop_track_def set_loop_playlist_def Let_def)
qed

theorem set_loop_rules_witness:
  "current (snd (select_album_by_id demo_db 1 False initial)) \<noteq> None
   \<and> playlist_mode (snd (select_album_by_id demo_db 1 False initial))
   \<and> loop_track (set_loop_playlist True
        (set_loop_track True (snd (select_album_by_id demo_db 1 False initial))))
   \<and> \<not> loop_playlist (set_loop_track True (snd (select_album_by_id demo_db 1 True initial)))
   \<and> set_loop_track True initial = initial
   \<and> set_loop_playlist True (snd (select_track demo_db 1 initial))
       = snd (select_track demo_db 1 initial)"
  using set_loop_rules [where s = "snd (select_album_by_id demo_db 1 False initial)"
      and enabled = True and tr = "[]"]
    set_loop_rules [where s = "snd (select_album_by_id demo_db 1 True initial)"
      and enabled = True and tr = "[]"]
    set_loop_rules [where s = initial and enabled = True and tr = "[]"]
    set_loop_rules [where s = "snd (select_track demo_db 1 initial)"
      and enabled = True and tr = "[]"]
  by (simp add: op_defs lookup_defs demo_defs initial_def)

section \<open>One second of playback\<close>

lemma tick_frozen: "current s = None \<or> is_paused s \<Longrightarrow> tick s = (Inr (current s), s)"
  by (auto simp: tick_def split: option.splits)

lemma ticks_frozen: "current s = None \<or> is_paused s \<Longrightarrow> ((\<lambda>x. snd (tick x)) ^^ n) s = s"
  by (induction n) (simp_all add: tick_frozen)

text \<open>
  Claim C3: \<open>tick\<close> returns the current track and changes nothing when there is no current
  track or the player is paused, so any number of ticks leaves a paused player as it is,
  and the first tick after \<open>play\<close> counts again. Otherwise \<open>elapsed\<close> grows by one; below
  the duration the current track is returned; at the duration a looped track restarts at 0;
  without the loop the call is \<open>next_track\<close> on the state with the incremented time.
\<close>

theorem tick_cases:
  "(current s = None \<or> is_paused s \<longrightarrow>
      tick s = (Inr (current s), s) \<and> ((\<lambda>x. snd (tick x)) ^^ n) s = s)
   \<and> (current s = Some c \<and> is_paused s \<and> elapsed s + 1 < duration c \<longrightarrow>
      tick (snd (play s))
        = (Inr (Some c), s\<lparr> is_paused := False, elapsed := elapsed s + 1 \<rparr>))
   \<and> (current s = Some c \<and> \<not> is_paused s \<and> elapsed s + 1 < duration c \<longrightarrow>
      tick s = (Inr (Some c), s\<lparr> elapsed := elapsed s + 1 \<rparr>))
   \<and> (current s = Some c \<and> \<not> is_paused s \<and> \<not> elapsed s + 1 < duration c \<and> loop_track s \<longrightarrow>
      tick s = (Inr (Some c), s\<lparr> elapsed := 0 \<rparr>))
   \<and> (current s = Some c \<and> \<not> is_paused s \<and> \<not> elapsed s + 1 < duration c \<and> \<not> loop_track s \<longrightarrow>
      tick s = next_track (s\<lparr> elapsed := elapsed s + 1 \<rparr>))"
proof (intro conjI impI)
  assume "current s = None \<or> is_paused s"
  then show "tick s = (Inr (current s), s)" by (rule tick_frozen)
next
  assume "current s = None \<or> is_paused s"
  then show "((\<lambda>x. snd (tick x)) ^^ n) s = s" by (rule ticks_frozen)
qed (simp_all add: tick_def play_def Let_def)

theorem tick_cases_witness:
  "((\<lambda>x. snd (tick x)) ^^ 5) (stop (snd (select_track demo_db 2 initial)))
      = stop (snd (select_track demo_db 2 initial))
   \<and> elapsed (snd (tick (snd (play (stop (snd (select_track demo_db 2 initial))))))) = 1
   \<and> elapsed (snd (tick (snd (select_track demo_db 2 initial)))) = 1
   \<and> tick ((snd (select_track demo_db 2 initial))\<lparr> elapsed := 2, loop_track := True \<rparr>)
      = (Inr (Some track_b),
         (snd (select_track demo_db 2 initial))\<lparr> elapsed := 0, loop_track := True \<rparr>)
   \<and> tick ((snd (select_track demo_db 2 initial))\<lparr> elapsed := 2 \<rparr>) = (Inr None, initial)
   \<and> tick initial = (Inr None, initial)"
  using tick_cases [of "stop (snd (select_track demo_db 2 initial))" 5 track_b]
    tick_cases [of "snd (select_track demo_db 2 initial)" 0 track_b]
    tick_cases [of "(snd (select_track demo_db 2 initial))\<lparr> elapsed := 2, loop_track := True \<rparr>"
      0 track_b]
    tick_cases [of "(snd (select_track demo_db 2 initial))\<lparr> elapsed := 2 \<rparr>" 0 track_b]
    tick_cases [of initial 0 track_b]
  by (simp add: op_defs lookup_defs demo_defs initial_def)

section \<open>Advancing to the next track\<close>

text \<open>
  Claim C4: \<open>next_track\<close>, which \<open>skip\<close> always calls and \<open>play\<close> calls when stopped,
  sets \<open>elapsed\<close> to 0 and clears the pause. In LIST mode the index grows by one; an index
  inside the list makes that entry current; an index at the length wraps to 0 under
  \<open>loopPlaylist\<close> and the first entry becomes current, and otherwise \<open>stop_all\<close> runs and
  nothing is returned. In QUEUE mode the head of the queue becomes current, and on an empty
  queue \<open>stop_all\<close> runs and nothing is returned. What \<open>stop_all\<close> does is part of the
  statement: no current track, \<open>elapsed\<close> 0, QUEUE mode, no pause, both loops off, the
  queue, the list and the index as they were; the two stopping branches are given with
  these fields written out. The two branches that read the list are stated for a new index
  that is not negative and a list that is not empty, which is what every reachable state
  offers (see the section on the selection bounds).
\<close>

theorem next_track_cases:
  "elapsed (snd (next_track s)) = 0 \<and> \<not> is_paused (snd (next_track s))
   \<and> skip s = next_track s
   \<and> (current s = None \<longrightarrow> play s = next_track s)
   \<and> stop_all s =
        s\<lparr> current := None, elapsed := 0, playlist_mode := False, is_paused := False,
           loop_track := False, loop_playlist := False \<rparr>
   \<and> (playlist_mode s \<and> 0 \<le> playlist_index s + 1
        \<and> playlist_index s + 1 < int (length (playlist_tracks s)) \<longrightarrow>
      next_track s =
        (Inr (Some (playlist_tracks s ! nat (playlist_index s + 1))),
         s\<lparr> elapsed := 0, is_paused := False, playlist_index := playlist_index s + 1,
            current := Some (playlist_tracks s ! nat (playlist_index s + 1)) \<rparr>))
   \<and> (playlist_mode s \<and> int (length (playlist_tracks s)) \<le> playlist_index s + 1
        \<and> loop_playlist s \<and> playlist_tracks s \<noteq> [] \<longrightarrow>
      next_track s =
        (Inr (Some (playlist_tracks s ! 0)),
         s\<lparr> elapsed := 0, is_paused := False, playlist_index := 0,
            current := Some (playlist_tracks s ! 0) \<rparr>))
   \<and> (playlist_mode s \<and> int (length (playlist_tracks s)) \<le> playlist_index s + 1
        \<and> \<not> loop_playlist s \<longrightarrow>
      next_track s =
        (Inr None,
         stop_all (s\<lparr> elapsed := 0, is_paused := False,
                      playlist_index := playlist_index s + 1 \<rparr>))
      \<and> next_track s =
        (Inr None,
         s\<lparr> playlist_index := playlist_index s + 1, current := None, elapsed := 0,
            playlist_mode := False, is_paused := False, loop_track := False,
            loop_playlist := False \<rparr>))
   \<and> (\<not> playlist_mode s \<and> queue s = t # rest \<longrightarrow>
      next_track s =
        (Inr (Some t), s\<lparr> elapsed := 0, is_paused := False, queue := rest, current := Some t \<rparr>))
   \<and> (\<not> playlist_mode s \<and> queue s = [] \<longrightarrow>
      next_track s = (Inr None, stop_all (s\<lparr> elapsed := 0, is_paused := False \<rparr>))
      \<and> next_track s =
        (Inr None,
         s\<lparr> current := None, elapsed := 0, playlist_mode := False, is_paused := False,
            loop_track := False, loop_playlist := False \<rparr>))"
  by (simp add: next_track_def take_from_playlist_def skip_def play_def Let_def py_index_0
        py_index_in_range stop_all_def reset_loops_def split: list.splits sum.splits)

theorem next_track_cases_witness:
  "next_track (snd (select_playlist_by_id demo_db 1 True initial))
     = (Inr (Some track_b),
        \<lparr> queue = [], current = Some track_b, elapsed = 0, is_paused = False,
          loop_track = False, loop_playlist = True, playlist_mode = True,
          playlist_tracks = [track_a, track_b], playlist_index = 1 \<rparr>)
   \<and> next_track (snd (next_track (snd (select_playlist_by_id demo_db 1 True initial))))
     = (Inr (Some track_a),
        \<lparr> queue = [], current = Some track_a, elapsed = 0, is_paused = False,
          loop_track = False, loop_playlist = True, playlist_mode = True,
          playlist_tracks = [track_a, track_b], playlist_index = 0 \<rparr>)
   \<and> next_track
        ((snd (next_track (snd (select_playlist_by_id demo_db 1 False initial))))
           \<lparr> queue := [track_a], elapsed := 2, is_paused := True, loop_track := True \<rparr>)
     = (Inr None,
        \<lparr> queue = [track_a], current = None, elapsed = 0, is_paused = False,
          loop_track = False, loop_playlist = False, playlist_mode = False,
          playlist_tracks = [track_a, track_b], playlist_index = 2 \<rparr>)
   \<and> next_track
        ((snd (select_track demo_db 1 initial))
           \<lparr> queue := [track_b, track_a], elapsed := 1, is_paused := True \<rparr>)
     = (Inr (Some track_b),
        \<lparr> queue = [track_a], current = Some track_b, elapsed = 0, is_paused = False,
          loop_track = False, loop_playlist = False, playlist_mode = False,
          playlist_tracks = [], playlist_index = 0 \<rparr>)
   \<and> next_track
        ((snd (select_track demo_db 2 initial))
           \<lparr> elapsed := 1, is_paused := True, loop_track := True \<rparr>)
     = (Inr None,
        \<lparr> queue = [], current = None, elapsed = 0, is_paused = False,
          loop_track = False, loop_playlist = False, playlist_mode = False,
          playlist_tracks = [], playlist_index = 0 \<rparr>)
   \<and> stop_all (snd (select_playlist_by_id demo_db 1 True initial))
     = \<lparr> queue = [], current = None, elapsed = 0, is_paused = False,
         loop_track = False, loop_playlist = False, playlist_mode = False,
         playlist_tracks = [track_a, track_b], playlist_index = 0 \<rparr>"
  using next_track_cases [of "snd (select_playlist_by_id demo_db 1 True initial)"]
    next_track_cases [of "snd (next_track (snd (select_playlist_by_id demo_db 1 True initial)))"]
    next_track_cases
      [of "(snd (next_track (snd (select_playlist_by_id demo_db 1 False initial))))
             \<lparr> queue := [track_a], elapsed := 2, is_paused := True, loop_track := True \<rparr>"]
    next_track_cases
      [of "(snd (select_track demo_db 1 initial))
             \<lparr> queue := [track_b, track_a], elapsed := 1, is_paused := True \<rparr>"
          track_b "[track_a]"]
    next_track_cases
      [of "(snd (select_track demo_db 2 initial))
             \<lparr> elapsed := 1, is_paused := True, loop_track := True \<rparr>"]
  by (simp add: op_defs lookup_defs demo_defs initial_def)

section \<open>Elapsed time within the duration\<close>

text \<open>
  Claim C5: when every track of the catalogue has a positive duration, then after any
  sequence of engine operations from the initial state, a current track \<open>c\<close> comes with
  \<open>0 \<le> elapsed < duration c\<close>.
\<close>

theorem elapsed_within_duration:
  assumes "\<forall>(db, c) \<in> set tr. valid_db db"
    and "current (run tr initial) = Some c"
  shows "0 \<le> elapsed (run tr initial) \<and> elapsed (run tr initial) < duration c"
proof -
  have "playable (run tr initial)"
    using assms(1) playable_initial by (rule playable_run)
  then have "elapsed_ok (run tr initial)"
    by (simp add: playable_def)
  with assms(2) show ?thesis
    by (simp add: elapsed_ok_iff)
qed

theorem elapsed_within_duration_witness:
  "current (run [(demo_db, SelectPlaylistById 1 True), (demo_db, Tick), (demo_db, Tick),
        (demo_db, Tick)] initial) = Some track_b
   \<and> 0 \<le> elapsed (run [(demo_db, SelectPlaylistById 1 True), (demo_db, Tick), (demo_db, Tick),
        (demo_db, Tick)] initial)
   \<and> elapsed (run [(demo_db, SelectPlaylistById 1 True), (demo_db, Tick), (demo_db, Tick),
        (demo_db, Tick)] initial) < duration track_b"
proof -
  let ?tr = "[(demo_db, SelectPlaylistById 1 True), (demo_db, Tick), (demo_db, Tick),
        (demo_db, Tick)]"
  have v: "\<forall>(db, c) \<in> set ?tr. valid_db db"
    by (simp add: valid_db_def demo_defs)
  have c: "current (run ?tr initial) = Some track_b"
    by (simp add: op_defs lookup_defs demo_defs initial_def)
  from c elapsed_within_duration [OF v c] show ?thesis
    by blast
qed

section \<open>Identifiers the catalogue does not resolve\<close>




section \<open>Removing from the queue\<close>

lemma remove_loop_first:
  "\<forall>u \<in> set pre. id' u \<noteq> i \<Longrightarrow> id' t = i \<Longrightarrow> set pre \<subseteq> set (queue s) \<Longrightarrow>
   t \<in> set (queue s) \<Longrightarrow>
   remove_loop i (pre @ t # post) s = (Inr True, s\<lparr> queue := remove1 t (queue s) \<rparr>)"
  by (induction pre) (auto simp: deque_remove_def)

lemma remove_loop_none:
  "\<forall>u \<in> set ts. id' u \<noteq> i \<Longrightarrow> remove_loop i ts s = (Inr False, s)"
  by (induction ts) auto

lemma remove1_first:
  "\<forall>u \<in> set pre. id' u \<noteq> id' t \<Longrightarrow> remove1 t (pre @ t # post) = pre @ post"
  by (induction pre) auto

text \<open>
  Claim C8: \<open>remove_from_queue\<close> removes exactly the first queue entry with the given id
  and returns true, or returns false and leaves the queue as it is when no entry has that
  id. In both cases the state changes in its queue only, whatever the current track is.
\<close>

theorem remove_from_queue_first_match:
  "(queue s = pre @ t # post \<and> id' t = i \<and> (\<forall>u \<in> set pre. id' u \<noteq> i) \<longrightarrow>
      remove_from_queue i s = (Inr True, s\<lparr> queue := pre @ post \<rparr>))
   \<and> ((\<forall>u \<in> set (queue s). id' u \<noteq> i) \<longrightarrow> remove_from_queue i s = (Inr False, s))"
proof (intro conjI impI)
  assume h: "queue s = pre @ t # post \<and> id' t = i \<and> (\<forall>u \<in> set pre. id' u \<noteq> i)"
  then have "remove_loop i (pre @ t # post) s = (Inr True, s\<lparr> queue := remove1 t (queue s) \<rparr>)"
    by (intro remove_loop_first) auto
  moreover from h have "remove1 t (queue s) = pre @ post"
    by (simp add: remove1_first)
  ultimately show "remove_from_queue i s = (Inr True, s\<lparr> queue := pre @ post \<rparr>)"
    using h by (simp add: remove_from_queue_def)
next
  assume "\<forall>u \<in> set (queue s). id' u \<noteq> i"
  then show "remove_from_queue i s = (Inr False, s)"
    by (simp add: remove_from_queue_def remove_loop_none)
qed

theorem remove_from_queue_first_match_witness:
  "remove_from_queue 2 (initial\<lparr> queue := [track_a, track_b, track_b], current := Some track_b \<rparr>)
     = (Inr True, initial\<lparr> queue := [track_a, track_b], current := Some track_b \<rparr>)
   \<and> remove_from_queue 7 (initial\<lparr> queue := [track_a, track_b, track_b], current := Some track_b \<rparr>)
     = (Inr False, initial\<lparr> queue := [track_a, track_b, track_b], current := Some track_b \<rparr>)"
  using remove_from_queue_first_match
      [of "initial\<lparr> queue := [track_a, track_b, track_b], current := Some track_b \<rparr>"
          "[track_a]" track_b "[track_b]" 2]
    remove_from_queue_first_match
      [of "initial\<lparr> queue := [track_a, track_b, track_b], current := Some track_b \<rparr>"
          "[]" track_a "[]" 7]
  by (simp add: demo_defs)

section \<open>The stopped engine\<close>

text \<open>
  Claim C9: a stopped engine (no current track) has \<open>elapsed = 0\<close>, is not paused, is in
  QUEUE mode and has both loop flags off. This holds of the initial state, every operation
  preserves it from any state, so it holds after every sequence of operations, and the
  snapshot of a stopped engine reports \<open>elapsed\<close> 0 and both loop flags off.
\<close>

theorem stopped_engine_is_clean:
  "stopped_ok initial
   \<and> (stopped_ok s \<longrightarrow> stopped_ok (snd (perform db c s)))
   \<and> (current (run tr initial) = None \<longrightarrow>
        elapsed (run tr initial) = 0 \<and> \<not> is_paused (run tr initial)
        \<and> \<not> playlist_mode (run tr initial) \<and> \<not> loop_track (run tr initial)
        \<and> \<not> loop_playlist (run tr initial))
   \<and> (snap_status (send_status (run tr initial)) = STOPPED \<longrightarrow>
        snap_elapsed (send_status (run tr initial)) = 0
        \<and> \<not> snap_loop_track (send_status (run tr initial))
        \<and> \<not> snap_loop_playlist (send_status (run tr initial)))"
proof -
  have i: "stopped_ok initial"
    by (simp add: stopped_ok_def initial_def)
  have p: "stopped_ok s \<longrightarrow> stopped_ok (snd (perform db c s))"
    by (simp add: stopped_ok_perform)
  have "stopped_ok (run tr initial)"
    using i by (rule stopped_ok_run)
  then have r: "current (run tr initial) = None \<longrightarrow>
        elapsed (run tr initial) = 0 \<and> \<not> is_paused (run tr initial)
        \<and> \<not> playlist_mode (run tr initial) \<and> \<not> loop_track (run tr initial)
        \<and> \<not> loop_playlist (run tr initial)"
    by (simp only: stopped_ok_def)
  have q: "snap_status (send_status (run tr initial)) = STOPPED \<longrightarrow>
        snap_elapsed (send_status (run tr initial)) = 0
        \<and> \<not> snap_loop_track (send_status (run tr initial))
        \<and> \<not> snap_loop_playlist (send_status (run tr initial))"
  proof (cases "current (run tr initial)")
    case None
    with r show ?thesis by (simp add: send_status_def)
  next
    case (Some t)
    then show ?thesis by (simp add: send_status_def)
  qed
  from i p r q show ?thesis
    by (intro conjI)
qed

theorem stopped_engine_is_clean_witness:
  "current (run [(demo_db, SelectPlaylistById 1 True), (demo_db, SetLoopTrack True),
       (demo_db, Pause), (demo_db, Skip), (demo_db, Skip)] initial) = None
   \<and> send_status (run [(demo_db, SelectPlaylistById 1 True), (demo_db, SetLoopTrack True),
       (demo_db, Pause), (demo_db, Skip), (demo_db, Skip)] initial)
     = \<lparr> snap_status = STOPPED, snap_track = None, snap_elapsed = 0, snap_duration = None,
         snap_queue = [], snap_loop_track = False, snap_loop_playlist = False \<rparr>"
  using stopped_engine_is_clean [of initial demo_db Tick
      "[(demo_db, SelectPlaylistById 1 True), (demo_db, SetLoopTrack True),
        (demo_db, Pause), (demo_db, Skip), (demo_db, Skip)]"]
  by (simp add: op_defs lookup_defs demo_defs initial_def send_status_def get_queue_def)

section \<open>The selection index in bounds\<close>

text \<open>
  Claim C10: in every state reached from the initial state in LIST mode, the selected list
  is not empty and \<open>0 \<le> playlist_index < length\<close>. The property holds initially and every
  operation preserves it from any state. From a state with the property, \<open>next_track\<close>,
  \<open>tick\<close>, \<open>play\<close> and \<open>skip\<close> return, so the indexing never raises, the wrap to index 0
  included; and an operation as a whole either returns or raises the \<^verbatim>\<open>OverflowError\<close>
  of a database lookup with the state untouched, never \<^verbatim>\<open>IndexError\<close>.
\<close>

theorem selection_in_bounds:
  "selection_ok initial
   \<and> (selection_ok s \<longrightarrow>
        selection_ok (snd (perform db c s))
        \<and> (fst (perform db c s) = Inr () \<or> perform db c s = (Inl OverflowError, s))
        \<and> fst (perform db c s) \<noteq> Inl IndexError)
   \<and> (playlist_mode (run tr initial) \<longrightarrow>
        playlist_tracks (run tr initial) \<noteq> [] \<and> 0 \<le> playlist_index (run tr initial)
        \<and> playlist_index (run tr initial) < int (length (playlist_tracks (run tr initial))))
   \<and> (fst (perform db c (run tr initial)) = Inr ()
        \<or> perform db c (run tr initial) = (Inl OverflowError, run tr initial))
   \<and> fst (perform db c (run tr initial)) \<noteq> Inl IndexError
   \<and> (\<exists>r. fst (next_track (run tr initial)) = Inr r)
   \<and> (\<exists>r. fst (tick (run tr initial)) = Inr r)
   \<and> (\<exists>r. fst (play (run tr initial)) = Inr r)
   \<and> (\<exists>r. fst (skip (run tr initial)) = Inr r)"
proof -
  have i: "selection_ok initial"
    by (simp add: selection_ok_def initial_def)
  then have r: "selection_ok (run tr initial)"
    by (rule selection_ok_run)
  have p: "fst (perform db c x) = Inr () \<or> perform db c x = (Inl OverflowError, x)"
    if "selection_ok x" for x
    using that by (rule perform_returns)
  have q: "fst (perform db c x) \<noteq> Inl IndexError" if "selection_ok x" for x
    using p [OF that] by auto
  have b: "playlist_mode (run tr initial) \<longrightarrow>
        playlist_tracks (run tr initial) \<noteq> [] \<and> 0 \<le> playlist_index (run tr initial)
        \<and> playlist_index (run tr initial) < int (length (playlist_tracks (run tr initial)))"
    using r by (simp add: selection_ok_def)
  have s: "selection_ok s \<longrightarrow>
        selection_ok (snd (perform db c s))
        \<and> (fst (perform db c s) = Inr () \<or> perform db c s = (Inl OverflowError, s))
        \<and> fst (perform db c s) \<noteq> Inl IndexError"
    using p [of s] q [of s] by (simp add: selection_ok_perform)
  have n: "\<exists>v. fst (next_track (run tr initial)) = Inr v"
    "\<exists>v. fst (tick (run tr initial)) = Inr v"
    "\<exists>v. fst (play (run tr initial)) = Inr v"
    "\<exists>v. fst (skip (run tr initial)) = Inr v"
    using r by (simp_all add: next_track_returns tick_returns play_returns skip_def)
  from i s b p [OF r] q [OF r] n show ?thesis
    by (intro conjI)
qed

theorem selection_in_bounds_witness:
  "playlist_mode (run [(demo_db, SelectPlaylistById 1 True), (demo_db, Skip), (demo_db, Skip)]
     initial)
   \<and> playlist_index (run [(demo_db, SelectPlaylistById 1 True), (demo_db, Skip), (demo_db, Skip)]
     initial) = 0
   \<and> fst (perform demo_db Skip
        (run [(demo_db, SelectPlaylistById 1 True), (demo_db, Skip), (demo_db, Skip)] initial))
      = Inr ()"
  using selection_in_bounds [of initial demo_db Skip
      "[(demo_db, SelectPlaylistById 1 True), (demo_db, Skip), (demo_db, Skip)]"]
  by (simp add: op_defs lookup_defs demo_defs initial_def)

end
